theory Spec2Isabelle
  imports Main
begin

section \<open>Extendible hash table (ExtendibleHash.py)\<close>

subsection \<open>Python dictionaries and the pickle files\<close>

text \<open>
  A Python \<open>dict\<close> is an association list in insertion order with unique keys.
  \<open>dict_set d k v\<close> is \<open>d[k] = v\<close>: an existing key keeps its place and gets the new
  value, a new key goes to the end.  \<open>dict_get\<close> is \<open>d.get(k)\<close> and \<open>dict_mem\<close> is
  \<open>k in d\<close>.
\<close>

fun dict_set :: "('k \<times> 'v) list \<Rightarrow> 'k \<Rightarrow> 'v \<Rightarrow> ('k \<times> 'v) list" where
  "dict_set [] k v = [(k, v)]"
| "dict_set ((k', v') # d) k v = (if k' = k then (k, v) # d else (k', v') # dict_set d k v)"

definition dict_get :: "('k \<times> 'v) list \<Rightarrow> 'k \<Rightarrow> 'v option" where
  "dict_get d k = map_of d k"

definition dict_mem :: "'k \<Rightarrow> ('k \<times> 'v) list \<Rightarrow> bool" where
  "dict_mem k d = (k \<in> set (map fst d))"

text \<open>
  The working directory maps a file name to what \<open>pickle.load\<close> gives for that file:
  the dictionary a bucket writes (lines 45-48), the dictionary of the table's metadata
  (lines 82-85), or contents on which \<open>pickle.load\<close> raises.
\<close>

datatype ('k, 'v) pickled =
    BucketData "('k \<times> 'v) list" nat
  | Metadata nat nat
  | Unreadable

type_synonym ('k, 'v) files = "string \<Rightarrow> ('k, 'v) pickled option"

text \<open>\<open>str_nat\<close> is Python's \<open>str\<close> on a non-negative integer, as an f-string formats it.\<close>

definition digit_char :: "nat \<Rightarrow> char" where
  "digit_char d = ''0123456789'' ! d"

function str_nat :: "nat \<Rightarrow> string" where
  "str_nat n = (if n < 10 then [digit_char n] else str_nat (n div 10) @ [digit_char (n mod 10)])"
  by pat_completeness auto
termination
  by (relation "measure (\<lambda>n. n)") auto

declare str_nat.simps [simp del]

subsection \<open>Bucket\<close>

record ('k, 'v) bucket =
  capacity :: int
  local_depth :: nat
  items :: "('k \<times> 'v) list"
  bucket_id :: "nat option"

text \<open>Line 18: the name \<open>Bucket.__init__\<close> reads.  Line 42: the name \<open>Bucket.save\<close> writes.\<close>

definition load_filename :: "nat \<Rightarrow> string" where
  "load_filename b = ''bucket'' @ str_nat b @ ''.pkl''"

definition save_filename :: "nat \<Rightarrow> string" where
  "save_filename b = ''bucket_'' @ str_nat b @ ''.pkl''"

text \<open>
  \<open>Bucket.__init__\<close> (lines 10-26).  With a bucket id and an existing file the fields
  come from the file: \<open>data.get('items', {})\<close> and \<open>data.get('local_depth', local_depth)\<close>
  fall back to the defaults on a dictionary without these keys, and a failing
  \<open>pickle.load\<close> is caught and leaves the fields as they are.
\<close>

definition Bucket :: "('k, 'v) files \<Rightarrow> int \<Rightarrow> nat \<Rightarrow> nat option \<Rightarrow> ('k, 'v) bucket" where
  "Bucket fs cap ld bid =
     (let self = \<lparr>capacity = cap, local_depth = ld, items = [], bucket_id = bid\<rparr> in
      case bid of
        None \<Rightarrow> self
      | Some b \<Rightarrow>
          (case fs (load_filename b) of
             None \<Rightarrow> self
           | Some (BucketData its d) \<Rightarrow> self\<lparr>items := its, local_depth := d\<rparr>
           | Some (Metadata g n) \<Rightarrow> self
           | Some Unreadable \<Rightarrow> self))"

text \<open>\<open>Bucket.save\<close> (lines 39-50); the write is taken to succeed.\<close>

definition save :: "('k, 'v) bucket \<Rightarrow> ('k, 'v) files \<Rightarrow> ('k, 'v) files" where
  "save self fs =
     (case bucket_id self of
        None \<Rightarrow> fs
      | Some b \<Rightarrow> fs(save_filename b \<mapsto> BucketData (items self) (local_depth self)))"

text \<open>\<open>Bucket.insert\<close> (lines 28-37): the flag, the bucket and the files afterwards.\<close>

definition insert_bucket ::
  "('k, 'v) bucket \<Rightarrow> ('k, 'v) files \<Rightarrow> 'k \<Rightarrow> 'v \<Rightarrow> bool \<times> ('k, 'v) bucket \<times> ('k, 'v) files" where
  "insert_bucket self fs key val =
     (if dict_mem key (items self) then (False, self, fs)
      else if int (length (items self)) < capacity self then
        (let self' = self\<lparr>items := dict_set (items self) key val\<rparr>
         in (True, self', save self' fs))
      else (False, self, fs))"

subsection \<open>ExtendibleHash\<close>

text \<open>
  Bucket objects live in a store, \<open>buckets\<close>, in the order of their creation; a
  directory slot holds the address of its bucket, so that slots sharing a bucket see
  every change made through any of them.  \<open>files\<close> is the working directory.
\<close>

record ('k, 'v) extendible_hash =
  global_depth :: nat
  bucket_capacity :: int
  directory :: "nat list"
  next_bucket_id :: nat
  buckets :: "('k, 'v) bucket list"
  files :: "('k, 'v) files"

definition save_metadata :: "('k, 'v) extendible_hash \<Rightarrow> ('k, 'v) extendible_hash" where
  "save_metadata s =
     s\<lparr>files := (files s)(''hash_metadata.pkl'' \<mapsto> Metadata (global_depth s) (next_bucket_id s))\<rparr>"

text \<open>\<open>ExtendibleHash.__init__\<close> (lines 62-76), in the working directory \<open>fs\<close>.\<close>

definition ExtendibleHash :: "('k, 'v) files \<Rightarrow> int \<Rightarrow> nat \<Rightarrow> ('k, 'v) extendible_hash" where
  "ExtendibleHash fs cap gd =
     (let initial_bucket = Bucket fs cap gd (Some 0)
      in save_metadata
           \<lparr>global_depth = gd, bucket_capacity = cap, directory = replicate (2 ^ gd) 0,
            next_bucket_id = 1, buckets = [initial_bucket], files = fs\<rparr>)"

text \<open>
  \<open>hash_function\<close> (lines 89-91).  Python's built-in \<open>hash\<close> is not part of the
  repository: it is the parameter \<open>py_hash\<close>.
\<close>

definition hash_function :: "('k \<Rightarrow> int) \<Rightarrow> 'k \<Rightarrow> nat" where
  "hash_function py_hash key = nat (\<bar>py_hash key\<bar> mod 2 ^ 32)"

definition get_directory_index :: "('k \<Rightarrow> int) \<Rightarrow> ('k, 'v) extendible_hash \<Rightarrow> 'k \<Rightarrow> nat" where
  "get_directory_index py_hash s key =
     (let mask = push_bit (global_depth s) 1 - 1
      in and (hash_function py_hash key) mask)"

definition grow_directory :: "('k, 'v) extendible_hash \<Rightarrow> ('k, 'v) extendible_hash" where
  "grow_directory s =
     (let old_size = length (directory s)
      in save_metadata
           (s\<lparr>global_depth := global_depth s + 1,
              directory := directory s @ take old_size (directory s)\<rparr>))"

text \<open>
  The redistribution loop of \<open>split_bucket\<close> (lines 139-142).  \<open>None\<close> is the
  \<open>IndexError\<close> of a directory read out of range.
\<close>

fun redistribute ::
  "('k \<Rightarrow> int) \<Rightarrow> ('k, 'v) extendible_hash \<Rightarrow> ('k \<times> 'v) list \<Rightarrow> ('k, 'v) extendible_hash option" where
  "redistribute py_hash s [] = Some s"
| "redistribute py_hash s ((key, val) # rest) =
     (let dir_index = get_directory_index py_hash s key in
      if dir_index < length (directory s) then
        (let b = directory s ! dir_index;
             bucket = buckets s ! b
         in redistribute py_hash
              (s\<lparr>buckets := (buckets s)[b := bucket\<lparr>items := dict_set (items bucket) key val\<rparr>]\<rparr>)
              rest)
      else None)"

text \<open>
  \<open>split_bucket\<close> (lines 110-149).  Lines 118-120 recompute the local variable
  \<open>index\<close>, which is not read again.  An index is a natural number here; \<open>None\<close> is
  the \<open>IndexError\<close> of a directory read out of range.
\<close>

definition repoint :: "nat list \<Rightarrow> nat \<Rightarrow> nat \<Rightarrow> nat \<Rightarrow> nat list" where
  "repoint dir old_bucket new_bucket shift =
     map (\<lambda>i. if dir ! i = old_bucket \<and> and i shift \<noteq> 0 then new_bucket else dir ! i)
       [0..<length dir]"

definition split_bucket ::
  "('k \<Rightarrow> int) \<Rightarrow> ('k, 'v) extendible_hash \<Rightarrow> nat \<Rightarrow> ('k, 'v) extendible_hash option" where
  "split_bucket py_hash s index =
     (if index < length (directory s) then
        (let old_bucket = directory s ! index;
             s1 = (if local_depth (buckets s ! old_bucket) \<ge> global_depth s
                   then grow_directory s else s);
             ld = local_depth (buckets s1 ! old_bucket) + 1;
             s2 = s1\<lparr>buckets := (buckets s1)[old_bucket := (buckets s1 ! old_bucket)\<lparr>local_depth := ld\<rparr>]\<rparr>;
             new_bucket = length (buckets s2);
             s3 = s2\<lparr>buckets := buckets s2 @ [Bucket (files s2) (bucket_capacity s2) ld (Some (next_bucket_id s2))],
                    next_bucket_id := next_bucket_id s2 + 1\<rparr>;
             shift = push_bit (ld - 1) (1::nat);
             s4 = s3\<lparr>directory := repoint (directory s3) old_bucket new_bucket shift\<rparr>;
             items_to_redistribute = items (buckets s4 ! old_bucket);
             s5 = s4\<lparr>buckets := (buckets s4)[old_bucket := (buckets s4 ! old_bucket)\<lparr>items := []\<rparr>]\<rparr>
         in case redistribute py_hash s5 items_to_redistribute of
              None \<Rightarrow> None
            | Some s6 \<Rightarrow>
                (let s7 = s6\<lparr>files := save (buckets s6 ! old_bucket) (files s6)\<rparr>;
                     s8 = s7\<lparr>files := save (buckets s7 ! new_bucket) (files s7)\<rparr>
                 in Some (save_metadata s8)))
      else None)"

text \<open>
  \<open>insert\<close> (lines 151-172): the loop over \<open>range(max_attempts)\<close> is a recursion on the
  number of attempts left.  The printed line is not modelled.
\<close>

fun insert_attempts ::
  "('k \<Rightarrow> int) \<Rightarrow> nat \<Rightarrow> ('k, 'v) extendible_hash \<Rightarrow> 'k \<Rightarrow> 'v \<Rightarrow> (bool \<times> ('k, 'v) extendible_hash) option" where
  "insert_attempts py_hash 0 s key val = Some (False, s)"
| "insert_attempts py_hash (Suc n) s key val =
     (let index = get_directory_index py_hash s key in
      if index < length (directory s) then
        (let b = directory s ! index;
             bucket = buckets s ! b
         in if dict_mem key (items bucket) then Some (False, s)
            else
              (case insert_bucket bucket (files s) key val of
                 (True, bucket', fs') \<Rightarrow> Some (True, s\<lparr>buckets := (buckets s)[b := bucket'], files := fs'\<rparr>)
               | (False, bucket', fs') \<Rightarrow>
                   (case split_bucket py_hash s index of
                      None \<Rightarrow> None
                    | Some s' \<Rightarrow> insert_attempts py_hash n s' key val)))
      else None)"

definition insert_eh ::
  "('k \<Rightarrow> int) \<Rightarrow> ('k, 'v) extendible_hash \<Rightarrow> 'k \<Rightarrow> 'v \<Rightarrow> (bool \<times> ('k, 'v) extendible_hash) option" where
  "insert_eh py_hash s key val = insert_attempts py_hash 10 s key val"

definition search_eh :: "('k \<Rightarrow> int) \<Rightarrow> ('k, 'v) extendible_hash \<Rightarrow> 'k \<Rightarrow> 'v option option" where
  "search_eh py_hash s key =
     (let index = get_directory_index py_hash s key in
      if index < length (directory s) then Some (dict_get (items (buckets s ! (directory s ! index))) key)
      else None)"


subsection \<open>Reading a table\<close>

text \<open>The bucket a directory slot refers to, and the number of slots that refer to a bucket.\<close>

definition bucket_at :: "('k, 'v) extendible_hash \<Rightarrow> nat \<Rightarrow> ('k, 'v) bucket" where
  "bucket_at s i = buckets s ! (directory s ! i)"

definition slot_count :: "('k, 'v) extendible_hash \<Rightarrow> nat \<Rightarrow> nat" where
  "slot_count s b = length (filter (\<lambda>x. x = b) (directory s))"

definition eh_state ::
  "nat \<Rightarrow> int \<Rightarrow> nat list \<Rightarrow> nat \<Rightarrow> ('k, 'v) bucket list \<Rightarrow> ('k, 'v) files \<Rightarrow> ('k, 'v) extendible_hash" where
  "eh_state gd cap dir nid bs fs =
     \<lparr>global_depth = gd, bucket_capacity = cap, directory = dir, next_bucket_id = nid,
      buckets = bs, files = fs\<rparr>"

section \<open>B+ tree (Bplustree.py)\<close>

subsection \<open>Nodes\<close>

text \<open>
  A node object is a record with the attributes of \<open>Node\<close>, \<open>Internal\<close> and \<open>Leaf\<close>
  together: \<open>children\<close> is read on internal nodes only, \<open>leaf_values\<close> (the attribute
  \<open>values\<close>) and \<open>pointer\<close> on leaves only.  References to nodes (\<open>parent\<close>,
  \<open>children\<close>, \<open>pointer\<close>, the root) are addresses into the list of all node objects, in
  the order of their creation.
\<close>

record node =
  is_leaf_node :: bool
  keys :: "int list"
  parent :: "nat option"
  children :: "nat list"
  leaf_values :: "int list"
  pointer :: "nat option"

definition Internal :: node where
  "Internal = \<lparr>is_leaf_node = False, keys = [], parent = None, children = [],
                leaf_values = [], pointer = None\<rparr>"

definition Leaf :: node where
  "Leaf = \<lparr>is_leaf_node = True, keys = [], parent = None, children = [],
            leaf_values = [], pointer = None\<rparr>"

definition is_full :: "node \<Rightarrow> bool" where
  "is_full self = (length (keys self) \<ge> 4)"

text \<open>\<open>list_insert i x xs\<close> is Python's \<open>xs.insert(i, x)\<close> for \<open>i \<ge> 0\<close>.\<close>

definition list_insert :: "nat \<Rightarrow> 'a \<Rightarrow> 'a list \<Rightarrow> 'a list" where
  "list_insert i x xs = take i xs @ x # drop i xs"

text \<open>\<open>index_of xs x\<close> is \<open>xs.index(x)\<close>; \<open>None\<close> is its \<open>ValueError\<close>.\<close>

fun index_of :: "'a list \<Rightarrow> 'a \<Rightarrow> nat option" where
  "index_of [] x = None"
| "index_of (y # ys) x = (if y = x then Some 0 else map_option Suc (index_of ys x))"

text \<open>
  The loop of lines 60-62 (\<open>key > self.keys[position]\<close>) and the loop of lines 87-89
  and 114-116 (\<open>key >= node.keys[position]\<close>).
\<close>

function leaf_position :: "int list \<Rightarrow> int \<Rightarrow> nat \<Rightarrow> nat" where
  "leaf_position ks key position =
     (if position < length ks \<and> key > ks ! position then leaf_position ks key (position + 1)
      else position)"
  by pat_completeness auto
termination
  by (relation "measure (\<lambda>(ks, key, position). length ks - position)") auto

function route_position :: "int list \<Rightarrow> int \<Rightarrow> nat \<Rightarrow> nat" where
  "route_position ks key position =
     (if position < length ks \<and> key \<ge> ks ! position then route_position ks key (position + 1)
      else position)"
  by pat_completeness auto
termination
  by (relation "measure (\<lambda>(ks, key, position). length ks - position)") auto

declare leaf_position.simps [simp del] route_position.simps [simp del]

text \<open>\<open>Leaf.insert_key_and_value\<close> (lines 54-69): the flag and the leaf afterwards.\<close>

definition insert_key_and_value :: "node \<Rightarrow> int \<Rightarrow> int \<Rightarrow> bool \<times> node" where
  "insert_key_and_value self key val =
     (let position = leaf_position (keys self) key 0 in
      if position < length (keys self) \<and> keys self ! position = key then (False, self)
      else (True, self\<lparr>keys := list_insert position key (keys self),
                        leaf_values := list_insert position val (leaf_values self)\<rparr>))"

subsection \<open>The tree\<close>

record bplustree =
  nodes :: "node list"
  root :: nat
  leaf_num :: nat

definition BPlusTree :: bplustree where
  "BPlusTree = \<lparr>nodes = [Leaf], root = 0, leaf_num = 1\<rparr>"

text \<open>
  The descent of \<open>search\<close> (lines 85-90) and of \<open>insert\<close> (lines 112-117), the same
  loop.  \<open>None\<close> stands for a call that does not return: the loop does not end, or
  \<open>node.children[position]\<close> raises.
\<close>

partial_function (option) find_leaf :: "node list \<Rightarrow> int \<Rightarrow> nat \<Rightarrow> nat option" where
  "find_leaf h key node =
     (if is_leaf_node (h ! node) then Some node
      else
        (let position = route_position (keys (h ! node)) key 0 in
         if position < length (children (h ! node))
         then find_leaf h key (children (h ! node) ! position)
         else None))"

text \<open>The scan of the leaf in \<open>search\<close> (lines 92-96); \<open>Some None\<close> is the result \<open>None\<close>.\<close>

fun scan_leaf :: "int list \<Rightarrow> int list \<Rightarrow> int \<Rightarrow> nat \<Rightarrow> int option option" where
  "scan_leaf [] vs key i = Some None"
| "scan_leaf (j # js) vs key i =
     (if j = key then (if i < length vs then Some (Some (vs ! i)) else None)
      else scan_leaf js vs key (i + 1))"

definition search_bpt :: "bplustree \<Rightarrow> int \<Rightarrow> int option option" where
  "search_bpt t key =
     (case find_leaf (nodes t) key (root t) of
        None \<Rightarrow> None
      | Some node \<Rightarrow> scan_leaf (keys (nodes t ! node)) (leaf_values (nodes t ! node)) key 0)"

text \<open>
  \<open>split_node\<close>, leaf branch (lines 136-148) and internal branch (lines 150-162): the
  promoted key and the node objects afterwards; the new node has the address
  \<open>length h\<close>.  \<open>None\<close> is the \<open>IndexError\<close> of \<open>new_node.keys[0]\<close> or \<open>node.keys[mid]\<close>.
\<close>

definition split_leaf :: "node list \<Rightarrow> nat \<Rightarrow> (int \<times> node list) option" where
  "split_leaf h node =
     (let self = h ! node;
          new_node = length h;
          mid = length (keys self) div 2;
          new = Leaf\<lparr>keys := drop mid (keys self), leaf_values := drop mid (leaf_values self),
                     pointer := pointer self\<rparr>;
          self' = self\<lparr>keys := take mid (keys self), leaf_values := take mid (leaf_values self),
                       pointer := Some new_node\<rparr>
      in case keys new of
           [] \<Rightarrow> None
         | k # ks \<Rightarrow> Some (k, h[node := self'] @ [new]))"

fun set_parents :: "node list \<Rightarrow> nat list \<Rightarrow> nat \<Rightarrow> node list" where
  "set_parents h [] p = h"
| "set_parents h (child # cs) p = set_parents (h[child := (h ! child)\<lparr>parent := Some p\<rparr>]) cs p"

definition split_internal :: "node list \<Rightarrow> nat \<Rightarrow> (int \<times> node list) option" where
  "split_internal h node =
     (let self = h ! node;
          new_node = length h;
          mid = length (keys self) div 2
      in if mid < length (keys self) then
           (let copied_or_pushed_key = keys self ! mid;
                new = Internal\<lparr>keys := drop (mid + 1) (keys self),
                               children := drop (mid + 1) (children self)\<rparr>;
                self' = self\<lparr>keys := take mid (keys self),
                             children := take (mid + 1) (children self)\<rparr>
            in Some (copied_or_pushed_key,
                     set_parents (h[node := self'] @ [new]) (children new) new_node))
         else None)"

text \<open>
  Lines 165-171: a new root over \<open>node\<close> and \<open>new_node\<close>.  Lines 173-177: the key and
  the new node go into the parent; \<open>None\<close> is the \<open>ValueError\<close> of
  \<open>parent.children.index(node)\<close>, or the \<open>AttributeError\<close> of a leaf as parent.
\<close>

definition new_root_over :: "node list \<Rightarrow> nat \<Rightarrow> nat \<Rightarrow> int \<Rightarrow> node list" where
  "new_root_over h node new_node k =
     (let new_root = length h;
          h1 = h @ [Internal\<lparr>keys := [k], children := [node, new_node]\<rparr>];
          h2 = h1[node := (h1 ! node)\<lparr>parent := Some new_root\<rparr>]
      in h2[new_node := (h2 ! new_node)\<lparr>parent := Some new_root\<rparr>])"

definition insert_in_parent :: "node list \<Rightarrow> nat \<Rightarrow> nat \<Rightarrow> nat \<Rightarrow> int \<Rightarrow> node list option" where
  "insert_in_parent h p node new_node k =
     (if is_leaf_node (h ! p) then None
      else
        (case index_of (children (h ! p)) node of
           None \<Rightarrow> None
         | Some position \<Rightarrow>
             (let h1 = h[p := (h ! p)\<lparr>keys := list_insert position k (keys (h ! p)),
                                      children := list_insert (position + 1) new_node (children (h ! p))\<rparr>]
              in Some (h1[new_node := (h1 ! new_node)\<lparr>parent := Some p\<rparr>]))))"

text \<open>
  \<open>split_node\<close> (lines 130-180).  \<open>None\<close> stands for a call that does not return: the
  recursion does not end, or one of the steps raises.
\<close>

partial_function (option) split_node :: "bplustree \<Rightarrow> nat \<Rightarrow> bplustree option" where
  "split_node t node =
     (let new_node = length (nodes t) in
      case (if is_leaf_node (nodes t ! node)
            then map_option (\<lambda>(k, h). (k, h, leaf_num t + 1)) (split_leaf (nodes t) node)
            else map_option (\<lambda>(k, h). (k, h, leaf_num t)) (split_internal (nodes t) node)) of
        None \<Rightarrow> None
      | Some (copied_or_pushed_key, h, n) \<Rightarrow>
          (case parent (h ! node) of
             None \<Rightarrow>
               Some \<lparr>nodes = new_root_over h node new_node copied_or_pushed_key,
                     root = length h, leaf_num = n\<rparr>
           | Some p \<Rightarrow>
               (case insert_in_parent h p node new_node copied_or_pushed_key of
                  None \<Rightarrow> None
                | Some h' \<Rightarrow>
                    if length (keys (h' ! p)) > 4
                    then split_node \<lparr>nodes = h', root = root t, leaf_num = n\<rparr> p
                    else Some \<lparr>nodes = h', root = root t, leaf_num = n\<rparr>)))"

text \<open>
  \<open>insert\<close> (lines 98-128); \<open>val = None\<close> is the call without a value.  The printed
  line is not modelled.  \<open>None\<close> stands for a call that does not return.
\<close>

definition insert_bpt :: "bplustree \<Rightarrow> int \<Rightarrow> int option \<Rightarrow> (bool \<times> bplustree) option" where
  "insert_bpt t key val =
     (let v = (case val of None \<Rightarrow> key | Some x \<Rightarrow> x);
          r = nodes t ! root t
      in if length (keys r) = 0 then
           (if is_leaf_node r
            then Some (True, t\<lparr>nodes := (nodes t)[root t := r\<lparr>keys := keys r @ [key],
                                                            leaf_values := leaf_values r @ [v]\<rparr>]\<rparr>)
            else None)
         else
           (case find_leaf (nodes t) key (root t) of
              None \<Rightarrow> None
            | Some node \<Rightarrow>
                (case insert_key_and_value (nodes t ! node) key v of
                   (False, self) \<Rightarrow> Some (False, t)
                 | (True, self) \<Rightarrow>
                     (let t1 = t\<lparr>nodes := (nodes t)[node := self]\<rparr>
                      in if is_full self
                         then (case split_node t1 node of
                                 None \<Rightarrow> None
                               | Some t2 \<Rightarrow> Some (True, t2))
                         else Some (True, t1)))))"

declare find_leaf.simps [code] split_node.simps [code]

text \<open>A caller that inserts the pairs of a list one after the other.\<close>

fun insert_all_bpt :: "bplustree \<Rightarrow> (int \<times> int option) list \<Rightarrow> bplustree option" where
  "insert_all_bpt t [] = Some t"
| "insert_all_bpt t ((key, val) # rest) =
     (case insert_bpt t key val of
        None \<Rightarrow> None
      | Some (done, t') \<Rightarrow> insert_all_bpt t' rest)"


definition leaf_node :: "int list \<Rightarrow> int list \<Rightarrow> nat option \<Rightarrow> nat option \<Rightarrow> node" where
  "leaf_node ks vs par nxt =
     \<lparr>is_leaf_node = True, keys = ks, parent = par, children = [], leaf_values = vs, pointer = nxt\<rparr>"

definition internal_node :: "int list \<Rightarrow> nat list \<Rightarrow> nat option \<Rightarrow> node" where
  "internal_node ks cs par =
     \<lparr>is_leaf_node = False, keys = ks, parent = par, children = cs, leaf_values = [], pointer = None\<rparr>"

text \<open>
  The source has no traversal of the leaf chain; these two loops read it as the
  specification describes it: go down from the root through the first child to the
  leftmost leaf, then follow \<open>pointer\<close> to the end, collecting the keys.
\<close>

partial_function (option) leftmost_leaf :: "node list \<Rightarrow> nat \<Rightarrow> nat option" where
  "leftmost_leaf h node =
     (if is_leaf_node (h ! node) then Some node
      else
        (case children (h ! node) of
           [] \<Rightarrow> None
         | child # cs \<Rightarrow> leftmost_leaf h child))"

partial_function (option) chain_keys :: "node list \<Rightarrow> nat \<Rightarrow> int list option" where
  "chain_keys h leaf =
     (case pointer (h ! leaf) of
        None \<Rightarrow> Some (keys (h ! leaf))
      | Some next_leaf \<Rightarrow>
          Option.bind (chain_keys h next_leaf) (\<lambda>rest. Some (keys (h ! leaf) @ rest)))"

definition leaf_chain :: "bplustree \<Rightarrow> int list option" where
  "leaf_chain t = Option.bind (leftmost_leaf (nodes t) (root t)) (chain_keys (nodes t))"

declare leftmost_leaf.simps [code] chain_keys.simps [code]

subsection \<open>Bulk load\<close>

text \<open>
  \<open>load_from_file\<close> of the tree (lines 182-194).  The file is the list of its lines, or
  \<open>None\<close> when it does not exist.  \<open>line.strip()\<close> and \<open>int(...)\<close> are Python's: they
  are the parameters \<open>strip\<close> and \<open>py_int\<close>, and \<open>py_int\<close> gives \<open>None\<close> where
  \<open>int\<close> raises \<open>ValueError\<close>.  The \<open>try\<close> encloses the whole loop: a \<open>ValueError\<close>
  leaves the loop and is reported once.  The result is the tree and the messages of the
  two handlers; \<open>None\<close> stands for an \<open>insert\<close> that does not return.
\<close>

datatype diagnostic = FileNotFound | InvalidValue | SkippingInvalidEntry string

fun load_lines_bpt ::
  "(string \<Rightarrow> string) \<Rightarrow> (string \<Rightarrow> int option) \<Rightarrow> bplustree \<Rightarrow> string list
    \<Rightarrow> (bplustree \<times> diagnostic list) option" where
  "load_lines_bpt strip py_int t [] = Some (t, [])"
| "load_lines_bpt strip py_int t (line # rest) =
     (case py_int (strip line) of
        None \<Rightarrow> Some (t, [InvalidValue])
      | Some number \<Rightarrow>
          (case insert_bpt t number None of
             None \<Rightarrow> None
           | Some (done, t') \<Rightarrow> load_lines_bpt strip py_int t' rest))"

definition load_from_file_bpt ::
  "(string \<Rightarrow> string) \<Rightarrow> (string \<Rightarrow> int option) \<Rightarrow> bplustree \<Rightarrow> string list option
    \<Rightarrow> (bplustree \<times> diagnostic list) option" where
  "load_from_file_bpt strip py_int t file =
     (case file of
        None \<Rightarrow> Some (t, [FileNotFound])
      | Some lines \<Rightarrow> load_lines_bpt strip py_int t lines)"

text \<open>
  \<open>load_from_file\<close> of the hash table (lines 191-213).  Here the \<open>try\<close> for
  \<open>ValueError\<close> is inside the loop: the line is reported and the loop goes on.  A missing
  file ends the program with \<open>sys.exit(1)\<close>.  The progress lines are not modelled.
\<close>

datatype 'a outcome = Returned 'a | SystemExit nat

fun load_lines_eh ::
  "(string \<Rightarrow> string) \<Rightarrow> (string \<Rightarrow> int option) \<Rightarrow> (int \<Rightarrow> int)
    \<Rightarrow> (int, int) extendible_hash \<Rightarrow> string list
    \<Rightarrow> ((int, int) extendible_hash \<times> diagnostic list) option" where
  "load_lines_eh strip py_int py_hash s [] = Some (s, [])"
| "load_lines_eh strip py_int py_hash s (line # rest) =
     (let line' = strip line in
      if line' = [] then load_lines_eh strip py_int py_hash s rest
      else
        (case py_int line' of
           None \<Rightarrow>
             (case load_lines_eh strip py_int py_hash s rest of
                None \<Rightarrow> None
              | Some (s', ds) \<Rightarrow> Some (s', SkippingInvalidEntry line' # ds))
         | Some key \<Rightarrow>
             (case insert_eh py_hash s key key of
                None \<Rightarrow> None
              | Some (done, s') \<Rightarrow> load_lines_eh strip py_int py_hash s' rest)))"

definition load_from_file_eh ::
  "(string \<Rightarrow> string) \<Rightarrow> (string \<Rightarrow> int option) \<Rightarrow> (int \<Rightarrow> int)
    \<Rightarrow> (int, int) extendible_hash \<Rightarrow> string list option
    \<Rightarrow> ((int, int) extendible_hash \<times> diagnostic list) outcome option" where
  "load_from_file_eh strip py_int py_hash s file =
     (case file of
        None \<Rightarrow> Some (SystemExit 1)
      | Some lines \<Rightarrow> map_option Returned (load_lines_eh strip py_int py_hash s lines))"

subsection \<open>Invariants of the table\<close>

text \<open>
  \<open>agree g0 d i j\<close>: the slot numbers \<open>i\<close> and \<open>j\<close> have the same bits \<open>g0, \<dots>, d - 1\<close>.
  \<open>dir_ok\<close> is the shape of a directory \<open>dir\<close> over buckets of the local depths \<open>lds\<close>, for
  a table constructed with global depth \<open>g0\<close>.  \<open>fresh_files\<close>: the working directory has
  no file of a name that \<open>Bucket.__init__\<close> reads.  \<open>reachable\<close>: the states a table gets
  into from its construction by \<open>insert\<close>, \<open>split_bucket\<close> and \<open>grow_directory\<close>.
  \<open>split_prepare\<close> and \<open>split_finish\<close> are the parts of \<open>split_bucket\<close> before and after
  the redistribution.
\<close>

definition agree :: "nat \<Rightarrow> nat \<Rightarrow> nat \<Rightarrow> nat \<Rightarrow> bool" where
  "agree g0 d i j = (\<forall>n. g0 \<le> n \<and> n < d \<longrightarrow> bit i n = bit j n)"

definition dir_ok :: "nat \<Rightarrow> nat \<Rightarrow> nat list \<Rightarrow> nat list \<Rightarrow> bool" where
  "dir_ok g0 gd dir lds \<longleftrightarrow>
     length dir = 2 ^ gd
   \<and> (\<forall>i<length dir. dir ! i < length lds)
   \<and> (\<forall>b<length lds. g0 \<le> lds ! b \<and> lds ! b \<le> gd)
   \<and> (\<forall>i<length dir. \<forall>j<length dir. (dir ! j = dir ! i) = agree g0 (lds ! (dir ! i)) i j)
   \<and> (\<forall>b<length lds. \<exists>i<length dir. dir ! i = b)"

definition fresh_files :: "('k, 'v) files \<Rightarrow> bool" where
  "fresh_files fs = (\<forall>n. fs (load_filename n) = None)"

definition shape_ok :: "nat \<Rightarrow> ('k, 'v) extendible_hash \<Rightarrow> bool" where
  "shape_ok g0 s \<longleftrightarrow>
     dir_ok g0 (global_depth s) (directory s) (map local_depth (buckets s)) \<and> fresh_files (files s)"

inductive reachable ::
  "('k \<Rightarrow> int) \<Rightarrow> ('k, 'v) files \<Rightarrow> int \<Rightarrow> nat \<Rightarrow> ('k, 'v) extendible_hash \<Rightarrow> bool"
  for py_hash fs cap g0 where
  init: "reachable py_hash fs cap g0 (ExtendibleHash fs cap g0)"
| insert: "reachable py_hash fs cap g0 s \<Longrightarrow> insert_eh py_hash s key val = Some (done, s')
    \<Longrightarrow> reachable py_hash fs cap g0 s'"
| split: "reachable py_hash fs cap g0 s \<Longrightarrow> split_bucket py_hash s index = Some s'
    \<Longrightarrow> reachable py_hash fs cap g0 s'"
| grow: "reachable py_hash fs cap g0 s \<Longrightarrow> reachable py_hash fs cap g0 (grow_directory s)"

definition split_prepare :: "('k, 'v) extendible_hash \<Rightarrow> nat \<Rightarrow> ('k, 'v) extendible_hash" where
  "split_prepare s1 old_bucket =
     (let ld = local_depth (buckets s1 ! old_bucket) + 1;
          s2 = s1\<lparr>buckets := (buckets s1)[old_bucket := (buckets s1 ! old_bucket)\<lparr>local_depth := ld\<rparr>]\<rparr>;
          new_bucket = length (buckets s2);
          s3 = s2\<lparr>buckets := buckets s2 @ [Bucket (files s2) (bucket_capacity s2) ld (Some (next_bucket_id s2))],
                 next_bucket_id := next_bucket_id s2 + 1\<rparr>;
          shift = push_bit (ld - 1) (1::nat)
      in s3\<lparr>directory := repoint (directory s3) old_bucket new_bucket shift\<rparr>)"

definition split_finish :: "('k, 'v) extendible_hash \<Rightarrow> nat \<Rightarrow> nat \<Rightarrow> ('k, 'v) extendible_hash" where
  "split_finish s6 old_bucket new_bucket =
     (let s7 = s6\<lparr>files := save (buckets s6 ! old_bucket) (files s6)\<rparr>;
          s8 = s7\<lparr>files := save (buckets s7 ! new_bucket) (files s7)\<rparr>
      in save_metadata s8)"

(*THEOREMS*)

section \<open>Extendible hash table: evaluation\<close>

lemma get_directory_index_mod:
  "get_directory_index py_hash s key = hash_function py_hash key mod 2 ^ global_depth s"
  by (simp add: get_directory_index_def Let_def take_bit_eq_mask mask_eq_exp_minus_1 flip: take_bit_eq_mod)

lemma insert_attempts_numeral:
  "insert_attempts py_hash (numeral n) s key val =
     (let index = get_directory_index py_hash s key in
      if index < length (directory s) then
        (let b = directory s ! index;
             bucket = buckets s ! b
         in if dict_mem key (items bucket) then Some (False, s)
            else
              (case insert_bucket bucket (files s) key val of
                 (True, bucket', fs') \<Rightarrow> Some (True, s\<lparr>buckets := (buckets s)[b := bucket'], files := fs'\<rparr>)
               | (False, bucket', fs') \<Rightarrow>
                   (case split_bucket py_hash s index of
                      None \<Rightarrow> None
                    | Some s' \<Rightarrow> insert_attempts py_hash (pred_numeral n) s' key val)))
      else None)"
  by (simp only: numeral_eq_Suc insert_attempts.simps)

lemma str_nat_digit: "n < 10 \<Longrightarrow> str_nat n = [digit_char n]"
  by (simp add: str_nat.simps)


lemmas eh_eval =
  insert_eh_def insert_attempts_numeral insert_bucket_def dict_mem_def
  split_bucket_def grow_directory_def save_metadata_def Let_def
  Bucket_def load_filename_def save_def save_filename_def str_nat_digit digit_char_def
  repoint_def upt_conv_Cons get_directory_index_mod hash_function_def
  numeral_2_eq_2 [symmetric] numeral_3_eq_3 [symmetric] Suc_1

lemma scenario_init:
  assumes "fs ''bucket0.pkl'' = None" and "fs ''bucket1.pkl'' = None"
  shows "\<exists>fs'. ExtendibleHash fs 2 1 =
           eh_state 1 2 [0, 0] 1 [\<lparr>capacity = 2, local_depth = 1, items = [], bucket_id = Some 0\<rparr>] fs'
         \<and> fs' ''bucket1.pkl'' = None"
  using assms
  by (simp add: eh_state_def ExtendibleHash_def Bucket_def load_filename_def str_nat_digit
      digit_char_def save_metadata_def numeral_2_eq_2)

lemma scenario_insert_0:
  fixes py_hash :: "int \<Rightarrow> int"
  assumes "py_hash 0 = 0" and "fs ''bucket1.pkl'' = None"
  shows "\<exists>fs'. insert_eh py_hash
           (eh_state 1 2 [0, 0] 1 [\<lparr>capacity = 2, local_depth = 1, items = [], bucket_id = Some 0\<rparr>] fs) 0 v0 =
           Some (True, eh_state 1 2 [0, 0] 1
             [\<lparr>capacity = 2, local_depth = 1, items = [(0, v0)], bucket_id = Some 0\<rparr>] fs')
         \<and> fs' ''bucket1.pkl'' = None"
  using assms by (simp add: eh_state_def eh_eval)

lemma scenario_insert_2:
  fixes py_hash :: "int \<Rightarrow> int"
  assumes "py_hash 2 = 2" and "fs ''bucket1.pkl'' = None"
  shows "\<exists>fs'. insert_eh py_hash
           (eh_state 1 2 [0, 0] 1 [\<lparr>capacity = 2, local_depth = 1, items = [(0, v0)], bucket_id = Some 0\<rparr>] fs) 2 v2 =
           Some (True, eh_state 1 2 [0, 0] 1
             [\<lparr>capacity = 2, local_depth = 1, items = [(0, v0), (2, v2)], bucket_id = Some 0\<rparr>] fs')
         \<and> fs' ''bucket1.pkl'' = None"
  using assms by (simp add: eh_state_def eh_eval)

lemma scenario_split:
  fixes py_hash :: "int \<Rightarrow> int"
  assumes "py_hash 0 = 0" and "py_hash 2 = 2" and "fs ''bucket1.pkl'' = None"
  shows "\<exists>fs'. split_bucket py_hash
           (eh_state 1 2 [0, 0] 1 [\<lparr>capacity = 2, local_depth = 1, items = [(0, v0), (2, v2)], bucket_id = Some 0\<rparr>] fs) 0 =
           Some (eh_state 2 2 [0, 0, 1, 1] 2
             [\<lparr>capacity = 2, local_depth = 2, items = [(0, v0)], bucket_id = Some 0\<rparr>,
              \<lparr>capacity = 2, local_depth = 2, items = [(2, v2)], bucket_id = Some 1\<rparr>] fs')"
  using assms by (simp add: eh_state_def eh_eval)

lemma scenario_insert_4:
  fixes py_hash :: "int \<Rightarrow> int"
  assumes "py_hash 0 = 0" and "py_hash 2 = 2" and "py_hash 4 = 4" and "fs ''bucket1.pkl'' = None"
  shows "\<exists>fs'. insert_eh py_hash
           (eh_state 1 2 [0, 0] 1 [\<lparr>capacity = 2, local_depth = 1, items = [(0, v0), (2, v2)], bucket_id = Some 0\<rparr>] fs) 4 v4 =
           Some (True, eh_state 2 2 [0, 0, 1, 1] 2
             [\<lparr>capacity = 2, local_depth = 2, items = [(0, v0), (4, v4)], bucket_id = Some 0\<rparr>,
              \<lparr>capacity = 2, local_depth = 2, items = [(2, v2)], bucket_id = Some 1\<rparr>] fs')"
  using assms by (simp add: eh_state_def eh_eval)

text \<open>
  C4.  A table of bucket capacity 2 and global depth 1, in a working directory without the
  files \<open>bucket0.pkl\<close> and \<open>bucket1.pkl\<close>, with a built-in hash that is the identity on
  0, 2 and 4: the inserts of 0 and 2 succeed and fill the one bucket; the key 4 goes to slot
  0, whose bucket is full; splitting it doubles the directory to 4 slots, raises the global
  depth to 2 and leaves 0 at slot 0 and 2 at slot 2; the insert of 4 succeeds and ends with
  4 slots, global depth 2, the keys 0 and 4 at slot 0, the key 2 at slot 2 and both buckets
  at local depth 2.
\<close>

theorem scenario_eh:
  fixes py_hash :: "int \<Rightarrow> int" and fs :: "(int, 'v) files"
  assumes h0: "py_hash 0 = 0" and h2: "py_hash 2 = 2" and h4: "py_hash 4 = 4"
    and f0: "fs ''bucket0.pkl'' = None" and f1: "fs ''bucket1.pkl'' = None"
  shows "\<exists>s1 s2 s' s3.
     insert_eh py_hash (ExtendibleHash fs 2 1) 0 v0 = Some (True, s1)
   \<and> insert_eh py_hash s1 2 v2 = Some (True, s2)
   \<and> length (directory s2) = 2 \<and> global_depth s2 = 1
   \<and> items (bucket_at s2 0) = [(0, v0), (2, v2)]
   \<and> get_directory_index py_hash s2 4 = 0
   \<and> split_bucket py_hash s2 0 = Some s'
   \<and> length (directory s') = 4 \<and> global_depth s' = 2
   \<and> items (bucket_at s' 0) = [(0, v0)] \<and> items (bucket_at s' 2) = [(2, v2)]
   \<and> get_directory_index py_hash s' 4 = 0
   \<and> insert_eh py_hash s2 4 v4 = Some (True, s3)
   \<and> length (directory s3) = 4 \<and> global_depth s3 = 2
   \<and> items (bucket_at s3 0) = [(0, v0), (4, v4)]
   \<and> items (bucket_at s3 2) = [(2, v2)]
   \<and> local_depth (bucket_at s3 0) = 2 \<and> local_depth (bucket_at s3 2) = 2"
proof -
  obtain fa where a: "ExtendibleHash fs 2 1 =
      eh_state 1 2 [0, 0] 1 [\<lparr>capacity = 2, local_depth = 1, items = [], bucket_id = Some 0\<rparr>] fa"
    and fa: "fa ''bucket1.pkl'' = None"
    using scenario_init [OF f0 f1] by blast
  obtain fb where b: "insert_eh py_hash (ExtendibleHash fs 2 1) 0 v0 =
      Some (True, eh_state 1 2 [0, 0] 1
        [\<lparr>capacity = 2, local_depth = 1, items = [(0, v0)], bucket_id = Some 0\<rparr>] fb)"
    and fb: "fb ''bucket1.pkl'' = None"
    using h0 fa scenario_insert_0 [of py_hash fa v0] unfolding a by blast
  obtain fc where c: "insert_eh py_hash (eh_state 1 2 [0, 0] 1
        [\<lparr>capacity = 2, local_depth = 1, items = [(0, v0)], bucket_id = Some 0\<rparr>] fb) 2 v2 =
      Some (True, eh_state 1 2 [0, 0] 1
        [\<lparr>capacity = 2, local_depth = 1, items = [(0, v0), (2, v2)], bucket_id = Some 0\<rparr>] fc)"
    and fc: "fc ''bucket1.pkl'' = None"
    using h2 fb scenario_insert_2 [of py_hash fb v0 v2] by blast
  obtain fd where d: "split_bucket py_hash (eh_state 1 2 [0, 0] 1
        [\<lparr>capacity = 2, local_depth = 1, items = [(0, v0), (2, v2)], bucket_id = Some 0\<rparr>] fc) 0 =
      Some (eh_state 2 2 [0, 0, 1, 1] 2
             [\<lparr>capacity = 2, local_depth = 2, items = [(0, v0)], bucket_id = Some 0\<rparr>,
              \<lparr>capacity = 2, local_depth = 2, items = [(2, v2)], bucket_id = Some 1\<rparr>] fd)"
    using h0 h2 fc scenario_split [of py_hash fc v0 v2] by blast
  obtain fe where e: "insert_eh py_hash (eh_state 1 2 [0, 0] 1
        [\<lparr>capacity = 2, local_depth = 1, items = [(0, v0), (2, v2)], bucket_id = Some 0\<rparr>] fc) 4 v4 =
      Some (True, eh_state 2 2 [0, 0, 1, 1] 2
             [\<lparr>capacity = 2, local_depth = 2, items = [(0, v0), (4, v4)], bucket_id = Some 0\<rparr>,
              \<lparr>capacity = 2, local_depth = 2, items = [(2, v2)], bucket_id = Some 1\<rparr>] fe)"
    using h0 h2 h4 fc scenario_insert_4 [of py_hash fc v0 v2 v4] by blast
  have i: "get_directory_index py_hash s 4 = 0" if "global_depth s \<le> 2" for s :: "(int, 'v) extendible_hash"
  proof -
    have "hash_function py_hash 4 = 4" by (simp add: hash_function_def h4)
    moreover have "(4::nat) mod 2 ^ n = 0" if "n \<le> 2" for n
    proof -
      from that have "n = 0 \<or> n = 1 \<or> n = 2" by auto
      then show ?thesis by auto
    qed
    ultimately show ?thesis using that by (simp add: get_directory_index_mod)
  qed
  let ?s1 = "eh_state 1 2 [0, 0] 1
        [\<lparr>capacity = 2, local_depth = 1, items = [(0, v0)], bucket_id = Some 0\<rparr>] fb"
  let ?s2 = "eh_state 1 2 [0, 0] 1
        [\<lparr>capacity = 2, local_depth = 1, items = [(0, v0), (2, v2)], bucket_id = Some 0\<rparr>] fc"
  let ?s' = "eh_state 2 2 [0, 0, 1, 1] 2
             [\<lparr>capacity = 2, local_depth = 2, items = [(0, v0)], bucket_id = Some 0\<rparr>,
              \<lparr>capacity = 2, local_depth = 2, items = [(2, v2)], bucket_id = Some 1\<rparr>] fd"
  let ?s3 = "eh_state 2 2 [0, 0, 1, 1] 2
             [\<lparr>capacity = 2, local_depth = 2, items = [(0, v0), (4, v4)], bucket_id = Some 0\<rparr>,
              \<lparr>capacity = 2, local_depth = 2, items = [(2, v2)], bucket_id = Some 1\<rparr>] fe"
  have p2: "length (directory ?s2) = 2" "global_depth ?s2 = 1"
    "items (bucket_at ?s2 0) = [(0, v0), (2, v2)]" "get_directory_index py_hash ?s2 4 = 0"
    by (simp_all add: i eh_state_def bucket_at_def)
  have p': "length (directory ?s') = 4" "global_depth ?s' = 2"
    "items (bucket_at ?s' 0) = [(0, v0)]" "items (bucket_at ?s' 2) = [(2, v2)]"
    "get_directory_index py_hash ?s' 4 = 0"
    by (simp_all add: i eh_state_def bucket_at_def)
  have p3: "length (directory ?s3) = 4" "global_depth ?s3 = 2"
    "items (bucket_at ?s3 0) = [(0, v0), (4, v4)]" "items (bucket_at ?s3 2) = [(2, v2)]"
    "local_depth (bucket_at ?s3 0) = 2" "local_depth (bucket_at ?s3 2) = 2"
    by (simp_all add: eh_state_def bucket_at_def)
  show ?thesis
    by (rule exI [of _ ?s1], rule exI [of _ ?s2], rule exI [of _ ?s'], rule exI [of _ ?s3])
      (intro conjI b c d e p2 p' p3)
qed


theorem scenario_eh_witness:
  "\<exists>s1 s2 s' s3.
     insert_eh (\<lambda>k. k) (ExtendibleHash Map.empty 2 1) 0 (10::int) = Some (True, s1)
   \<and> insert_eh (\<lambda>k. k) s1 2 12 = Some (True, s2)
   \<and> length (directory s2) = 2 \<and> global_depth s2 = 1
   \<and> items (bucket_at s2 0) = [(0, 10), (2, 12)]
   \<and> get_directory_index (\<lambda>k. k) s2 4 = 0
   \<and> split_bucket (\<lambda>k. k) s2 0 = Some s'
   \<and> length (directory s') = 4 \<and> global_depth s' = 2
   \<and> items (bucket_at s' 0) = [(0, 10)] \<and> items (bucket_at s' 2) = [(2, 12)]
   \<and> get_directory_index (\<lambda>k. k) s' 4 = 0
   \<and> insert_eh (\<lambda>k. k) s2 4 14 = Some (True, s3)
   \<and> length (directory s3) = 4 \<and> global_depth s3 = 2
   \<and> items (bucket_at s3 0) = [(0, 10), (4, 14)]
   \<and> items (bucket_at s3 2) = [(2, 12)]
   \<and> local_depth (bucket_at s3 0) = 2 \<and> local_depth (bucket_at s3 2) = 2"
  by (rule scenario_eh) simp_all

text \<open>
  C7.  \<open>Bucket.save\<close> writes \<open>bucket_0.pkl\<close> for the bucket of identity 0 and
  \<open>Bucket.__init__\<close> reads \<open>bucket0.pkl\<close>: a bucket of identity 0 with the item
  \<open>1 \<mapsto> 1\<close> and local depth 2, saved into an empty working directory and created again
  with the same identity, comes back with no items and the local depth of the call.
\<close>

theorem bucket_reload_misses_saved_file:
  "save_filename 0 = ''bucket_0.pkl'' \<and> load_filename 0 = ''bucket0.pkl''
   \<and> save \<lparr>capacity = 2, local_depth = 2, items = [(1::int, 1::int)], bucket_id = Some 0\<rparr> Map.empty
         ''bucket_0.pkl'' = Some (BucketData [(1, 1)] 2)
   \<and> items (Bucket (save \<lparr>capacity = 2, local_depth = 2, items = [(1::int, 1::int)], bucket_id = Some 0\<rparr> Map.empty)
         2 1 (Some 0)) = []
   \<and> local_depth (Bucket (save \<lparr>capacity = 2, local_depth = 2, items = [(1::int, 1::int)], bucket_id = Some 0\<rparr> Map.empty)
         2 1 (Some 0)) = 1"
  by (simp add: save_def Bucket_def save_filename_def load_filename_def str_nat_digit digit_char_def)

text \<open>
  C9, as stated: the directory index of a key would be the same whatever the built-in hash
  of the run gives for it.  Two runs whose built-in hashes of the string \<open>a\<close> are 0 and 1
  compute different indices in the freshly constructed table.
\<close>

theorem index_depends_on_builtin_hash_counterexample:
  "get_directory_index (\<lambda>k. 0) (ExtendibleHash Map.empty 2 1 :: (string, int) extendible_hash) ''a''
   \<noteq> get_directory_index (\<lambda>k. 1) (ExtendibleHash Map.empty 2 1 :: (string, int) extendible_hash) ''a''"
  by (simp add: get_directory_index_mod hash_function_def ExtendibleHash_def save_metadata_def)

text \<open>
  C9, amended.  \<open>hash_function\<close> is the absolute value of the built-in hash modulo
  \<open>2^32\<close>, an unsigned number below \<open>2^32\<close>; the directory index is its low-order
  \<open>global_depth\<close> bits, a number below \<open>2^global_depth\<close>.  The index is a function of
  the built-in hash of the key and of the global depth only: two runs whose built-in
  hashes agree on a key compute the same index for it in any two tables of the same
  global depth.
\<close>

theorem index_from_builtin_hash:
  "hash_function py_hash key = nat (\<bar>py_hash key\<bar> mod 2 ^ 32)
   \<and> hash_function py_hash key < 2 ^ 32
   \<and> get_directory_index py_hash s key = hash_function py_hash key mod 2 ^ global_depth s
   \<and> get_directory_index py_hash s key < 2 ^ global_depth s
   \<and> (py_hash key = py_hash' key \<and> global_depth s = global_depth s' \<longrightarrow>
        get_directory_index py_hash s key = get_directory_index py_hash' s' key)"
proof -
  have "\<bar>py_hash key\<bar> mod 2 ^ 32 < 2 ^ 32"
    by (rule pos_mod_bound) simp
  then have "hash_function py_hash key < 2 ^ 32"
    by (simp add: hash_function_def nat_less_iff)
  then show ?thesis
    by (simp add: get_directory_index_mod) (simp add: hash_function_def)
qed

theorem index_from_builtin_hash_witness:
  "7 = int (length ''a'') + 6
   \<and> global_depth (ExtendibleHash Map.empty 2 1 :: (string, int) extendible_hash)
     = global_depth (ExtendibleHash Map.empty 5 1 :: (string, int) extendible_hash)
   \<and> get_directory_index (\<lambda>k. 7) (ExtendibleHash Map.empty 2 1 :: (string, int) extendible_hash) ''a''
     = get_directory_index (\<lambda>k. int (length k) + 6)
         (ExtendibleHash Map.empty 5 1 :: (string, int) extendible_hash) ''a''"
proof -
  have e: "7 = int (length ''a'') + 6"
    by simp
  have g: "global_depth (ExtendibleHash Map.empty 2 1 :: (string, int) extendible_hash)
     = global_depth (ExtendibleHash Map.empty 5 1 :: (string, int) extendible_hash)"
    by (simp add: ExtendibleHash_def save_metadata_def)
  note r = index_from_builtin_hash [of "\<lambda>k. 7" "''a''"
      "ExtendibleHash Map.empty 2 1 :: (string, int) extendible_hash" "\<lambda>k. int (length k) + 6"
      "ExtendibleHash Map.empty 5 1 :: (string, int) extendible_hash",
      THEN conjunct2, THEN conjunct2, THEN conjunct2, THEN conjunct2, THEN mp, OF conjI [OF e g]]
  show ?thesis
    by (intro conjI e g r)
qed

section \<open>B+ tree: evaluation\<close>

text \<open>
  C5.  In a fresh tree the inserts of 1, 2, 3 fill the root leaf; with the key 4 the leaf
  reaches 4 keys, is full, and the insert splits it: the root is an internal node with
  the keys [3] and two children, the leaves [1, 2] and [3, 4], linked in this order, and
  the leaf chain reads 1, 2, 3, 4.  The insert of 5 goes into the leaf [3, 4], which
  becomes [3, 4, 5]; no node is created and the root keeps its key and its children.
\<close>

theorem scenario_bpt:
  "(case insert_all_bpt BPlusTree [(1, None), (2, None), (3, None)] of
      None \<Rightarrow> False
    | Some t3 \<Rightarrow>
        is_leaf_node (nodes t3 ! root t3) \<and> keys (nodes t3 ! root t3) = [1, 2, 3]
        \<and> (case insert_key_and_value (nodes t3 ! root t3) 4 4 of
             (done, self) \<Rightarrow> done \<and> keys self = [1, 2, 3, 4] \<and> is_full self)
        \<and> (case insert_bpt t3 4 None of
             None \<Rightarrow> False
           | Some (done4, t4) \<Rightarrow>
               done4 \<and> \<not> is_leaf_node (nodes t4 ! root t4) \<and> keys (nodes t4 ! root t4) = [3]
               \<and> (case children (nodes t4 ! root t4) of
                    [l, r] \<Rightarrow>
                      is_leaf_node (nodes t4 ! l) \<and> keys (nodes t4 ! l) = [1, 2]
                      \<and> is_leaf_node (nodes t4 ! r) \<and> keys (nodes t4 ! r) = [3, 4]
                      \<and> pointer (nodes t4 ! l) = Some r \<and> pointer (nodes t4 ! r) = None
                      \<and> leaf_chain t4 = Some [1, 2, 3, 4]
                      \<and> (case insert_bpt t4 5 None of
                           None \<Rightarrow> False
                         | Some (done5, t5) \<Rightarrow>
                             done5 \<and> length (nodes t5) = length (nodes t4)
                             \<and> root t5 = root t4 \<and> keys (nodes t5 ! root t5) = [3]
                             \<and> children (nodes t5 ! root t5) = [l, r]
                             \<and> keys (nodes t5 ! l) = [1, 2] \<and> keys (nodes t5 ! r) = [3, 4, 5]
                             \<and> leaf_chain t5 = Some [1, 2, 3, 4, 5])
                  | _ \<Rightarrow> False)))"
  by code_simp

text \<open>
  C8.  A file with the lines \<open>1\<close>, \<open>x\<close>, \<open>2\<close>, where \<open>int\<close> accepts \<open>1\<close> and \<open>2\<close> and
  raises on \<open>x\<close>.  The loader of the tree stops at \<open>x\<close>: it reports an invalid value,
  the key 1 is in the tree and the key 2, on a later well-formed line, is not.  The
  loader of the hash table skips \<open>x\<close> and goes on: the key 2 is in the table.
\<close>

theorem load_from_file_bpt_stops_at_malformed_line:
  "(case load_from_file_bpt (\<lambda>line. line)
           (\<lambda>line. if line = ''1'' then Some 1 else if line = ''2'' then Some 2 else None)
           BPlusTree (Some [''1'', ''x'', ''2'']) of
      None \<Rightarrow> False
    | Some (t, ds) \<Rightarrow>
        ds = [InvalidValue] \<and> search_bpt t 1 = Some (Some 1) \<and> search_bpt t 2 = Some None)
   \<and> (case load_from_file_eh (\<lambda>line. line)
           (\<lambda>line. if line = ''1'' then Some 1 else if line = ''2'' then Some 2 else None)
           (\<lambda>k. k) (ExtendibleHash Map.empty 2 1) (Some [''1'', ''x'', ''2'']) of
        Some (Returned (s, ds)) \<Rightarrow>
          ds = [SkippingInvalidEntry ''x''] \<and> search_eh (\<lambda>k. k) s 1 = Some (Some 1)
          \<and> search_eh (\<lambda>k. k) s 2 = Some (Some 2)
      | _ \<Rightarrow> False)"
  by code_simp

section \<open>Extendible hash table: the directory in every state\<close>

lemma str_nat_hd: "str_nat n \<noteq> [] \<and> hd (str_nat n) \<in> set ''0123456789''"
proof (induction n rule: str_nat.induct)
  case (1 n)
  show ?case
  proof (cases "n < 10")
    case True
    then have "digit_char n \<in> set ''0123456789''"
      unfolding digit_char_def by (intro nth_mem) simp
    with True show ?thesis by (simp add: str_nat.simps [of n])
  next
    case False
    with 1 show ?thesis by (simp add: str_nat.simps [of n])
  qed
qed

lemma load_filename_not_saved [simp]: "save_filename m \<noteq> load_filename n"
proof -
  obtain c cs where "str_nat n = c # cs" and "c \<in> set ''0123456789''"
    using str_nat_hd [of n] by (cases "str_nat n") auto
  then show ?thesis
    by (auto simp: save_filename_def load_filename_def)
qed

lemma load_filename_not_metadata [simp]: "load_filename n \<noteq> ''hash_metadata.pkl''"
  by (simp add: load_filename_def)

lemma dict_set_fresh: "k \<notin> fst ` set d \<Longrightarrow> dict_set d k v = d @ [(k, v)]"
  by (induction d) auto

lemma and_shift_bit: "(and i (push_bit d (1::nat)) \<noteq> 0) = bit i d"
  by (simp add: and_exp_eq_0_iff_not_bit)

lemma agree_Suc: "g0 \<le> d \<Longrightarrow> agree g0 (Suc d) i j = (agree g0 d i j \<and> bit i d = bit j d)"
  unfolding agree_def by (auto simp: less_Suc_eq)

lemma agree_refl [simp]: "agree g0 d i i"
  by (simp add: agree_def)

lemma agree_mod: "d \<le> g \<Longrightarrow> agree g0 d (i mod 2 ^ g) j = agree g0 d i j"
  unfolding agree_def by (auto simp flip: take_bit_eq_mod simp: bit_take_bit_iff)

lemma agree_mod2: "d \<le> g \<Longrightarrow> agree g0 d i (j mod 2 ^ g) = agree g0 d i j"
  unfolding agree_def by (auto simp flip: take_bit_eq_mod simp: bit_take_bit_iff)

lemma not_bit_above: "(i::nat) < 2 ^ g \<Longrightarrow> g \<le> n \<Longrightarrow> \<not> bit i n"
proof -
  assume "i < 2 ^ g" and "g \<le> n"
  then have "i < 2 ^ n"
    by (meson less_le_trans one_le_numeral power_increasing)
  then show ?thesis
    by (simp add: bit_iff_odd)
qed

lemma flip_bit_less: "d < g \<Longrightarrow> (i::nat) < 2 ^ g \<Longrightarrow> flip_bit d i < 2 ^ g"
proof -
  assume d: "d < g" and i: "i < 2 ^ g"
  have "take_bit g (flip_bit d i) = flip_bit d i"
  proof (rule bit_eqI)
    fix n
    show "bit (take_bit g (flip_bit d i)) n = bit (flip_bit d i) n"
      using d not_bit_above [OF i, of n]
      by (cases "n < g") (auto simp: bit_take_bit_iff bit_flip_bit_iff)
  qed
  then show ?thesis
    by (simp add: take_bit_nat_eq_self_iff)
qed

lemma card_agree:
  assumes "g0 \<le> d" and "d \<le> g"
  shows "card {j. j < 2 ^ g \<and> agree g0 d i j} = 2 ^ (g - d + g0)"
  using assms
proof (induction d rule: dec_induct)
  case base
  have "{j. j < (2::nat) ^ g \<and> agree g0 g0 i j} = {..<2 ^ g}"
    by (auto simp: agree_def)
  then show ?case using base by simp
next
  case (step d)
  let ?A = "{j. j < 2 ^ g \<and> agree g0 (Suc d) i j}"
  let ?B = "{j. j < 2 ^ g \<and> agree g0 d i j}"
  from step have dg: "d < g" and IH: "card ?B = 2 ^ (g - d + g0)" by auto
  have agf: "agree g0 d i (flip_bit d j) = agree g0 d i j" for j
    by (auto simp: agree_def bit_flip_bit_iff)
  have img: "flip_bit d ` ?A = {j. j < 2 ^ g \<and> agree g0 d i j \<and> bit i d \<noteq> bit j d}"
  proof (intro set_eqI iffI)
    fix x assume "x \<in> flip_bit d ` ?A"
    then show "x \<in> {j. j < 2 ^ g \<and> agree g0 d i j \<and> bit i d \<noteq> bit j d}"
      using dg step.hyps(1)
      by (auto simp: agree_Suc agf flip_bit_less bit_flip_bit_iff)
  next
    fix x assume x: "x \<in> {j. j < 2 ^ g \<and> agree g0 d i j \<and> bit i d \<noteq> bit j d}"
    have "flip_bit d x \<in> ?A"
      using x dg step.hyps(1) by (auto simp: agree_Suc agf flip_bit_less bit_flip_bit_iff)
    moreover have "flip_bit d (flip_bit d x) = x"
      by (rule bit_eqI) (auto simp: bit_flip_bit_iff)
    ultimately show "x \<in> flip_bit d ` ?A"
      by (metis imageI)
  qed
  have inj: "inj_on (flip_bit d) ?A"
  proof (rule inj_onI)
    fix x y :: nat assume "flip_bit d x = flip_bit d y"
    then have "flip_bit d (flip_bit d x) = flip_bit d (flip_bit d y)" by simp
    moreover have "flip_bit d (flip_bit d z) = z" for z :: nat
      by (rule bit_eqI) (auto simp: bit_flip_bit_iff)
    ultimately show "x = y" by simp
  qed
  have un: "?B = ?A \<union> flip_bit d ` ?A"
    unfolding img using step.hyps(1) by (auto simp: agree_Suc)
  have dis: "?A \<inter> flip_bit d ` ?A = {}"
    unfolding img using step.hyps(1) by (auto simp: agree_Suc)
  have fin: "finite ?A" by simp
  have "card ?B = card ?A + card (flip_bit d ` ?A)"
    unfolding un using fin dis by (intro card_Un_disjoint) auto
  also have "\<dots> = 2 * card ?A"
    using inj by (simp add: card_image)
  finally have "2 * card ?A = 2 ^ (g - d + g0)"
    using IH by simp
  moreover have "g - d + g0 = Suc (g - Suc d + g0)"
    using dg by simp
  ultimately show ?case by simp
qed

lemma dir_ok_grow:
  assumes "dir_ok g0 gd dir lds"
  shows "dir_ok g0 (Suc gd) (dir @ dir) lds"
proof -
  let ?n = "2 ^ gd :: nat"
  from assms have len: "length dir = ?n"
    and rng: "\<And>i. i < ?n \<Longrightarrow> dir ! i < length lds"
    and lds: "\<And>b. b < length lds \<Longrightarrow> g0 \<le> lds ! b \<and> lds ! b \<le> gd"
    and agr: "\<And>i j. i < ?n \<Longrightarrow> j < ?n \<Longrightarrow> (dir ! j = dir ! i) = agree g0 (lds ! (dir ! i)) i j"
    and ref: "\<And>b. b < length lds \<Longrightarrow> \<exists>i<?n. dir ! i = b"
    unfolding dir_ok_def by auto
  have nth: "(dir @ dir) ! i = dir ! (i mod ?n)" if "i < 2 ^ Suc gd" for i
    using that len by (auto simp: nth_append le_mod_geq not_less)
  have m: "i mod ?n < ?n" for i by simp
  have "(dir @ dir) ! j = (dir @ dir) ! i \<longleftrightarrow> agree g0 (lds ! ((dir @ dir) ! i)) i j"
    if "i < 2 ^ Suc gd" "j < 2 ^ Suc gd" for i j
  proof -
    have "lds ! (dir ! (i mod ?n)) \<le> gd"
      using lds [OF rng [OF m]] by simp
    then show ?thesis
      using agr [OF m [of i] m [of j]] that
      by (simp add: nth agree_mod agree_mod2)
  qed
  moreover have "\<exists>i<2 ^ Suc gd. (dir @ dir) ! i = b" if "b < length lds" for b
  proof -
    from ref [OF that] obtain i where "i < ?n" "dir ! i = b" by auto
    then show ?thesis using len by (intro exI [of _ i]) (simp add: nth_append)
  qed
  moreover have "(dir @ dir) ! i < length lds" if "i < 2 ^ Suc gd" for i
    using that rng [OF m [of i]] by (simp add: nth)
  moreover have "length (dir @ dir) = 2 ^ Suc gd"
    using len by simp
  ultimately show ?thesis
    unfolding dir_ok_def using lds by (simp add: le_SucI del: power_Suc length_append)
qed

lemma repoint_length [simp]: "length (repoint dir old new shift) = length dir"
  by (simp add: repoint_def)

lemma repoint_nth:
  "i < length dir \<Longrightarrow>
   repoint dir old new (2 ^ d) ! i = (if dir ! i = old \<and> bit i d then new else dir ! i)"
  by (auto simp: repoint_def and_exp_eq_0_iff_not_bit)

lemma set_bit_less: "d < g \<Longrightarrow> (i::nat) < 2 ^ g \<Longrightarrow> set_bit d i < 2 ^ g"
proof -
  assume d: "d < g" and i: "i < 2 ^ g"
  have "take_bit g (set_bit d i) = set_bit d i"
  proof (rule bit_eqI)
    fix n
    show "bit (take_bit g (set_bit d i)) n = bit (set_bit d i) n"
      using d not_bit_above [OF i, of n]
      by (cases "n < g") (auto simp: bit_take_bit_iff bit_set_bit_iff)
  qed
  then show ?thesis
    by (simp add: take_bit_nat_eq_self_iff)
qed

lemma unset_bit_less: "(i::nat) < 2 ^ g \<Longrightarrow> unset_bit d i < 2 ^ g"
proof -
  assume i: "i < 2 ^ g"
  have "take_bit g (unset_bit d i) = unset_bit d i"
  proof (rule bit_eqI)
    fix n
    show "bit (take_bit g (unset_bit d i)) n = bit (unset_bit d i) n"
      using not_bit_above [OF i, of n]
      by (cases "n < g") (auto simp: bit_take_bit_iff bit_unset_bit_iff)
  qed
  then show ?thesis
    by (simp add: take_bit_nat_eq_self_iff)
qed

lemma dir_ok_split:
  assumes ok: "dir_ok g0 gd dir lds" and old: "old < length lds" and d: "lds ! old < gd"
  shows "dir_ok g0 gd (repoint dir old (length lds) (2 ^ (lds ! old)))
           (lds[old := Suc (lds ! old)] @ [Suc (lds ! old)])"
proof -
  let ?n = "2 ^ gd :: nat"
  let ?d = "lds ! old"
  let ?new = "length lds"
  let ?dir = "repoint dir old ?new (2 ^ ?d)"
  let ?lds = "lds[old := Suc ?d] @ [Suc ?d]"
  from ok have len: "length dir = ?n"
    and rng: "\<And>i. i < ?n \<Longrightarrow> dir ! i < length lds"
    and lds: "\<And>b. b < length lds \<Longrightarrow> g0 \<le> lds ! b \<and> lds ! b \<le> gd"
    and agr: "\<And>i j. i < ?n \<Longrightarrow> j < ?n \<Longrightarrow> (dir ! j = dir ! i) = agree g0 (lds ! (dir ! i)) i j"
    and ref: "\<And>b. b < length lds \<Longrightarrow> \<exists>i<?n. dir ! i = b"
    unfolding dir_ok_def by auto
  have g0d: "g0 \<le> ?d" using lds [OF old] by simp
  have nth: "?dir ! i = (if dir ! i = old \<and> bit i ?d then ?new else dir ! i)" if "i < ?n" for i
    using that len by (simp add: repoint_nth)
  have ldn: "?lds ! b = (if b = old \<or> b = ?new then Suc ?d else lds ! b)" if "b \<le> length lds" for b
    using that old by (auto simp: nth_append nth_list_update)
  have 1: "length ?dir = ?n" using len by simp
  have 2: "?dir ! i < length ?lds" if "i < ?n" for i
    using rng [OF that] by (simp add: nth [OF that] less_SucI)
  have 3: "g0 \<le> ?lds ! b \<and> ?lds ! b \<le> gd" if "b < length ?lds" for b
  proof -
    from that have "b \<le> length lds" by simp
    then show ?thesis using lds [of b] g0d d by (auto simp: ldn)
  qed
  have 4: "(?dir ! j = ?dir ! i) = agree g0 (?lds ! (?dir ! i)) i j" if i: "i < ?n" and j: "j < ?n" for i j
  proof -
    have ri: "dir ! i < length lds" and rj: "dir ! j < length lds"
      using rng i j by auto
    show ?thesis
    proof (cases "dir ! i = old")
      case True
      then have a: "(dir ! j = old) = agree g0 ?d i j"
        using agr [OF i j] by simp
      show ?thesis
        using True a ri rj g0d
        by (auto simp: nth [OF i] nth [OF j] ldn agree_Suc)
    next
      case False
      then show ?thesis
        using agr [OF i j] ri rj
        by (auto simp: nth [OF i] nth [OF j] ldn)
    qed
  qed
  have 5: "\<exists>i<?n. ?dir ! i = b" if "b < length ?lds" for b
  proof -
    from ref [OF old] obtain i0 where i0: "i0 < ?n" "dir ! i0 = old" by auto
    have u: "unset_bit ?d i0 < ?n" using i0 by (simp add: unset_bit_less)
    have s: "set_bit ?d i0 < ?n" using i0 d by (simp add: set_bit_less)
    have "agree g0 ?d i0 (unset_bit ?d i0)" "agree g0 ?d i0 (set_bit ?d i0)"
      by (auto simp: agree_def bit_unset_bit_iff bit_set_bit_iff)
    then have du: "dir ! unset_bit ?d i0 = old" and ds: "dir ! set_bit ?d i0 = old"
      using agr [OF i0(1) u] agr [OF i0(1) s] i0(2) by auto
    have "b < length lds \<or> b = length lds"
      using that by (auto simp: less_Suc_eq)
    then consider "b = old" | "b = ?new" | "b < length lds" "b \<noteq> old"
      by blast
    then show ?thesis
    proof cases
      case 1
      then show ?thesis
        using u du by (intro exI [of _ "unset_bit ?d i0"]) (simp add: nth bit_unset_bit_iff)
    next
      case 2
      then show ?thesis
        using s ds by (intro exI [of _ "set_bit ?d i0"]) (simp add: nth bit_set_bit_iff)
    next
      case 3
      from ref [OF 3(1)] obtain i where "i < ?n" "dir ! i = b" by auto
      then show ?thesis using 3 by (intro exI [of _ i]) (simp add: nth)
    qed
  qed
  show ?thesis
    unfolding dir_ok_def using 1 2 3 4 5 by simp
qed

lemma dir_ok_count:
  assumes ok: "dir_ok g0 gd dir lds" and b: "b < length lds"
  shows "length (filter (\<lambda>x. x = b) dir) = 2 ^ (gd - lds ! b + g0)"
proof -
  let ?n = "2 ^ gd :: nat"
  from ok have len: "length dir = ?n"
    and lds: "\<And>b. b < length lds \<Longrightarrow> g0 \<le> lds ! b \<and> lds ! b \<le> gd"
    and agr: "\<And>i j. i < ?n \<Longrightarrow> j < ?n \<Longrightarrow> (dir ! j = dir ! i) = agree g0 (lds ! (dir ! i)) i j"
    and ref: "\<And>b. b < length lds \<Longrightarrow> \<exists>i<?n. dir ! i = b"
    unfolding dir_ok_def by auto
  from ref [OF b] obtain i where i: "i < ?n" "dir ! i = b" by auto
  have "length (filter (\<lambda>x. x = b) dir) = card {j. j < length dir \<and> dir ! j = b}"
    by (simp add: length_filter_conv_card)
  also have "{j. j < length dir \<and> dir ! j = b} = {j. j < ?n \<and> agree g0 (lds ! b) i j}"
    using agr [OF i(1)] i(2) len by auto
  also have "card \<dots> = 2 ^ (gd - lds ! b + g0)"
    using lds [OF b] by (intro card_agree) auto
  finally show ?thesis .
qed

lemma index_less: "get_directory_index py_hash s key < 2 ^ global_depth s"
  by (simp add: get_directory_index_mod)

lemma Bucket_fresh:
  "fresh_files fs \<Longrightarrow>
   Bucket fs cap ld (Some n) = \<lparr>capacity = cap, local_depth = ld, items = [], bucket_id = Some n\<rparr>"
  by (simp add: Bucket_def fresh_files_def)

lemma fresh_files_save [simp]: "fresh_files (save b fs) = fresh_files fs"
  by (auto simp: fresh_files_def save_def load_filename_not_saved [symmetric] split: option.splits)

lemma fresh_files_metadata [simp]:
  "fresh_files (fs(''hash_metadata.pkl'' \<mapsto> x)) = fresh_files fs"
  by (auto simp: fresh_files_def)

lemma shape_ok_init:
  assumes "fresh_files fs"
  shows "shape_ok g0 (ExtendibleHash fs cap g0)"
  using assms
  by (auto simp: shape_ok_def ExtendibleHash_def save_metadata_def Bucket_fresh dir_ok_def agree_def
      intro: exI [of _ 0])

lemma shape_ok_grow:
  assumes "shape_ok g0 s"
  shows "shape_ok g0 (grow_directory s)"
proof -
  from assms have "dir_ok g0 (global_depth s) (directory s) (map local_depth (buckets s))"
    and "fresh_files (files s)"
    by (auto simp: shape_ok_def)
  then show ?thesis
    using dir_ok_grow [of g0 "global_depth s" "directory s" "map local_depth (buckets s)"]
    by (simp add: shape_ok_def grow_directory_def save_metadata_def)
qed

lemma map_update_same: "(map f xs)[i := f (xs ! i)] = map f xs"
  by (cases "i < length xs") (auto simp: list_update_same_conv list_update_beyond)

lemma redistribute_shape:
  assumes "length (directory s) = 2 ^ global_depth s"
  shows "\<exists>s'. redistribute py_hash s its = Some s'
     \<and> directory s' = directory s \<and> global_depth s' = global_depth s \<and> files s' = files s
     \<and> next_bucket_id s' = next_bucket_id s \<and> bucket_capacity s' = bucket_capacity s
     \<and> map local_depth (buckets s') = map local_depth (buckets s)
     \<and> map bucket_id (buckets s') = map bucket_id (buckets s)"
  using assms
proof (induction its arbitrary: s)
  case Nil
  then show ?case by simp
next
  case (Cons kv its)
  obtain key val where kv: "kv = (key, val)" by (cases kv)
  let ?b = "directory s ! get_directory_index py_hash s key"
  let ?s = "s\<lparr>buckets := (buckets s)[?b := (buckets s ! ?b)
      \<lparr>items := dict_set (items (buckets s ! ?b)) key val\<rparr>]\<rparr>"
  have lt: "get_directory_index py_hash s key < length (directory s)"
    using Cons.prems index_less [of py_hash s key] by simp
  have "length (directory ?s) = 2 ^ global_depth ?s"
    using Cons.prems by simp
  from Cons.IH [OF this] obtain s' where s': "redistribute py_hash ?s its = Some s'"
    "directory s' = directory s" "global_depth s' = global_depth s" "files s' = files s"
    "next_bucket_id s' = next_bucket_id s" "bucket_capacity s' = bucket_capacity s"
    "map local_depth (buckets s') = map local_depth (buckets ?s)"
    "map bucket_id (buckets s') = map bucket_id (buckets ?s)"
    by auto
  have "map local_depth (buckets ?s) = map local_depth (buckets s)"
    "map bucket_id (buckets ?s) = map bucket_id (buckets s)"
    by (simp_all add: map_update map_update_same)
  with s' lt show ?case
    by (simp add: kv Let_def)
qed

lemma split_bucket_alt:
  "split_bucket py_hash s index =
     (if index < length (directory s) then
        (let old_bucket = directory s ! index;
             s1 = (if local_depth (buckets s ! old_bucket) \<ge> global_depth s
                   then grow_directory s else s);
             s4 = split_prepare s1 old_bucket
         in case redistribute py_hash
                (s4\<lparr>buckets := (buckets s4)[old_bucket := (buckets s4 ! old_bucket)\<lparr>items := []\<rparr>]\<rparr>)
                (items (buckets s4 ! old_bucket)) of
              None \<Rightarrow> None
            | Some s6 \<Rightarrow> Some (split_finish s6 old_bucket (length (buckets s1))))
      else None)"
  apply (cases "index < length (directory s)")
   apply (cases "global_depth s \<le> local_depth (buckets s ! (directory s ! index))")
    apply (simp_all add: split_bucket_def split_prepare_def split_finish_def Let_def
      cong: option.case_cong)
  done

lemma split_prepare_fields:
  assumes "fresh_files (files s1)"
  shows "directory (split_prepare s1 old) =
           repoint (directory s1) old (length (buckets s1)) (2 ^ local_depth (buckets s1 ! old))"
    and "buckets (split_prepare s1 old) =
           (buckets s1)[old := (buckets s1 ! old)\<lparr>local_depth := Suc (local_depth (buckets s1 ! old))\<rparr>]
           @ [\<lparr>capacity = bucket_capacity s1, local_depth = Suc (local_depth (buckets s1 ! old)),
                items = [], bucket_id = Some (next_bucket_id s1)\<rparr>]"
    and "global_depth (split_prepare s1 old) = global_depth s1"
    and "files (split_prepare s1 old) = files s1"
    and "bucket_capacity (split_prepare s1 old) = bucket_capacity s1"
    and "next_bucket_id (split_prepare s1 old) = Suc (next_bucket_id s1)"
  using assms by (simp_all add: split_prepare_def Let_def Bucket_fresh)

lemma split_finish_fields:
  "directory (split_finish s6 old new) = directory s6"
  "buckets (split_finish s6 old new) = buckets s6"
  "global_depth (split_finish s6 old new) = global_depth s6"
  "bucket_capacity (split_finish s6 old new) = bucket_capacity s6"
  "next_bucket_id (split_finish s6 old new) = next_bucket_id s6"
  "fresh_files (files (split_finish s6 old new)) = fresh_files (files s6)"
  by (simp_all add: split_finish_def save_metadata_def Let_def)

lemma grow_directory_fields:
  "buckets (grow_directory s) = buckets s"
  "directory (grow_directory s) = directory s @ directory s"
  "global_depth (grow_directory s) = Suc (global_depth s)"
  "bucket_capacity (grow_directory s) = bucket_capacity s"
  "next_bucket_id (grow_directory s) = next_bucket_id s"
  "fresh_files (files (grow_directory s)) = fresh_files (files s)"
  by (simp_all add: grow_directory_def save_metadata_def)

lemma split_bucket_shape:
  assumes ok: "shape_ok g0 s" and index: "index < length (directory s)"
  shows "\<exists>s'. split_bucket py_hash s index = Some s' \<and> shape_ok g0 s'"
proof -
  define old where "old = directory s ! index"
  define s1 where "s1 = (if local_depth (buckets s ! old) \<ge> global_depth s then grow_directory s else s)"
  define d where "d = local_depth (buckets s ! old)"
  define s4 where "s4 = split_prepare s1 old"
  define s5 where "s5 = s4\<lparr>buckets := (buckets s4)[old := (buckets s4 ! old)\<lparr>items := []\<rparr>]\<rparr>"
  have ok1: "shape_ok g0 s1"
    using ok by (simp add: s1_def shape_ok_grow)
  have b1: "buckets s1 = buckets s"
    by (simp add: s1_def grow_directory_fields)
  from ok have d0: "dir_ok g0 (global_depth s) (directory s) (map local_depth (buckets s))"
    by (simp add: shape_ok_def)
  then have old: "old < length (buckets s)"
    using index by (simp add: dir_ok_def old_def)
  with d0 have "d \<le> global_depth s"
    by (simp add: dir_ok_def d_def)
  then have lt: "d < global_depth s1"
    by (simp add: s1_def d_def grow_directory_fields)
  from ok1 have d1: "dir_ok g0 (global_depth s1) (directory s1) (map local_depth (buckets s))"
    and f1: "fresh_files (files s1)"
    by (simp_all add: shape_ok_def b1)
  have ldo: "map local_depth (buckets s) ! old = d"
    using old by (simp add: d_def)
  from dir_ok_split [OF d1, of old] old lt
  have d4: "dir_ok g0 (global_depth s1) (repoint (directory s1) old (length (buckets s)) (2 ^ d))
      ((map local_depth (buckets s))[old := Suc d] @ [Suc d])"
    by (simp add: ldo)
  have f5: "directory s5 = repoint (directory s1) old (length (buckets s)) (2 ^ d)"
    "global_depth s5 = global_depth s1" "files s5 = files s1"
    "map local_depth (buckets s5) = (map local_depth (buckets s))[old := Suc d] @ [Suc d]"
    using old
    by (simp_all add: s5_def s4_def split_prepare_fields [OF f1] b1 d_def map_update
        list_update_append nth_append)
  have len5: "length (directory s5) = 2 ^ global_depth s5"
    using d4 by (simp add: dir_ok_def f5)
  from redistribute_shape [OF len5, of py_hash "items (buckets s4 ! old)"]
  obtain s6 where s6: "redistribute py_hash s5 (items (buckets s4 ! old)) = Some s6"
    "directory s6 = directory s5" "global_depth s6 = global_depth s5" "files s6 = files s5"
    "map local_depth (buckets s6) = map local_depth (buckets s5)"
    by blast
  have sp: "split_bucket py_hash s index = Some (split_finish s6 old (length (buckets s1)))"
    using index s6(1)
    unfolding split_bucket_alt Let_def old_def [symmetric] s1_def [symmetric] s4_def [symmetric]
      s5_def [symmetric]
    by simp
  have "shape_ok g0 (split_finish s6 old (length (buckets s1)))"
    using d4 f1 s6 f5
    by (simp add: shape_ok_def split_finish_fields)
  with sp show ?thesis by blast
qed

lemma insert_bucket_fields:
  assumes "insert_bucket b fs key val = (done, b', fs')"
  shows "local_depth b' = local_depth b" and "fresh_files fs' = fresh_files fs"
  using assms by (auto simp: insert_bucket_def Let_def split: if_splits)

lemma shape_ok_index:
  assumes "shape_ok g0 s"
  shows "get_directory_index py_hash s key < length (directory s)"
  using assms index_less [of py_hash s key] by (simp add: shape_ok_def dir_ok_def)

lemma insert_attempts_shape:
  assumes "shape_ok g0 s"
  shows "\<exists>done s'. insert_attempts py_hash n s key val = Some (done, s') \<and> shape_ok g0 s'"
  using assms
proof (induction n arbitrary: s)
  case 0
  then show ?case by auto
next
  case (Suc n)
  let ?i = "get_directory_index py_hash s key"
  let ?b = "directory s ! ?i"
  have i: "?i < length (directory s)"
    using Suc.prems by (rule shape_ok_index)
  show ?case
  proof (cases "dict_mem key (items (buckets s ! ?b))")
    case True
    with i Suc.prems show ?thesis by (auto simp: Let_def)
  next
    case False
    obtain flag b' fs' where ib: "insert_bucket (buckets s ! ?b) (files s) key val = (flag, b', fs')"
      by (cases "insert_bucket (buckets s ! ?b) (files s) key val") auto
    show ?thesis
    proof (cases flag)
      case True
      have "map local_depth ((buckets s)[?b := b']) = map local_depth (buckets s)"
        using insert_bucket_fields(1) [OF ib] by (simp add: map_update map_update_same)
      then have "shape_ok g0 (s\<lparr>buckets := (buckets s)[?b := b'], files := fs'\<rparr>)"
        using Suc.prems insert_bucket_fields(2) [OF ib] by (simp add: shape_ok_def)
      with i False ib True show ?thesis by (auto simp: Let_def)
    next
      case nd: False
      from split_bucket_shape [OF Suc.prems i, of py_hash]
      obtain s1 where s1: "split_bucket py_hash s ?i = Some s1" "shape_ok g0 s1" by blast
      from Suc.IH [OF s1(2)] obtain flag' s' where
        "insert_attempts py_hash n s1 key val = Some (flag', s')" "shape_ok g0 s'" by blast
      with i False ib nd s1 show ?thesis by (auto simp: Let_def)
    qed
  qed
qed

lemma reachable_shape:
  assumes "fresh_files fs" and "reachable py_hash fs cap g0 s"
  shows "shape_ok g0 s"
  using assms(2)
proof (induction rule: reachable.induct)
  case init
  show ?case using assms(1) by (rule shape_ok_init)
next
  case (insert s key val flag s')
  from insert_attempts_shape [OF insert.IH, of py_hash 10 key val] insert.hyps(2)
  show ?case by (auto simp: insert_eh_def)
next
  case (split s index s')
  show ?case
  proof (cases "index < length (directory s)")
    case True
    from split_bucket_shape [OF split.IH True, of py_hash] split.hyps(2)
    show ?thesis by auto
  next
    case False
    with split.hyps(2) show ?thesis by (simp add: split_bucket_def)
  qed
next
  case (grow s)
  then show ?case by (simp add: shape_ok_grow)
qed

text \<open>
  C2, amended.  In a working directory without bucket files to load, in every state of a
  table constructed with global depth \<open>g0\<close>: the directory has \<open>2^global_depth\<close> slots,
  slots of the same bucket see the same local depth \<open>d\<close>, \<open>g0 \<le> d \<le> global_depth\<close>, and
  the bucket has exactly \<open>2^(global_depth - d + g0)\<close> slots.
\<close>

theorem slot_count_reachable:
  assumes "fresh_files fs" and "reachable py_hash fs cap g0 s" and "i < length (directory s)"
  shows "length (directory s) = 2 ^ global_depth s
    \<and> (\<forall>j<length (directory s). directory s ! j = directory s ! i \<longrightarrow>
          local_depth (bucket_at s j) = local_depth (bucket_at s i))
    \<and> g0 \<le> local_depth (bucket_at s i) \<and> local_depth (bucket_at s i) \<le> global_depth s
    \<and> slot_count s (directory s ! i) = 2 ^ (global_depth s - local_depth (bucket_at s i) + g0)"
proof -
  from reachable_shape [OF assms(1,2)]
  have ok: "dir_ok g0 (global_depth s) (directory s) (map local_depth (buckets s))"
    by (simp add: shape_ok_def)
  then have b: "directory s ! i < length (map local_depth (buckets s))"
    using assms(3) by (simp add: dir_ok_def)
  have "slot_count s (directory s ! i) = 2 ^ (global_depth s - local_depth (bucket_at s i) + g0)"
    using dir_ok_count [OF ok b] b by (simp add: slot_count_def bucket_at_def)
  moreover have "g0 \<le> local_depth (bucket_at s i) \<and> local_depth (bucket_at s i) \<le> global_depth s"
    using ok b by (simp add: dir_ok_def bucket_at_def)
  moreover have "length (directory s) = 2 ^ global_depth s"
    using ok by (simp add: dir_ok_def)
  ultimately show ?thesis
    by (simp add: bucket_at_def)
qed

theorem slot_count_reachable_witness:
  "slot_count (ExtendibleHash Map.empty 2 1 :: (int, int) extendible_hash)
      (directory (ExtendibleHash Map.empty 2 1 :: (int, int) extendible_hash) ! 0)
   = 2 ^ (global_depth (ExtendibleHash Map.empty 2 1 :: (int, int) extendible_hash)
          - local_depth (bucket_at (ExtendibleHash Map.empty 2 1 :: (int, int) extendible_hash) 0) + 1)"
proof -
  have f: "fresh_files (Map.empty :: (int, int) files)"
    by (simp add: fresh_files_def)
  have r: "reachable (\<lambda>k. k) Map.empty 2 1 (ExtendibleHash Map.empty 2 1 :: (int, int) extendible_hash)"
    by (rule reachable.init)
  have i: "0 < length (directory (ExtendibleHash Map.empty 2 1 :: (int, int) extendible_hash))"
    by (simp add: ExtendibleHash_def save_metadata_def)
  from slot_count_reachable [OF f r i] show ?thesis
    by blast
qed

text \<open>
  C2, as stated: right after the construction with capacity 2 and global depth 1 the one
  bucket has local depth 1 and both slots, not \<open>2^(1 - 1) = 1\<close> slot.
\<close>

theorem initial_slot_count_counterexample:
  "slot_count (ExtendibleHash Map.empty 2 1 :: (int, int) extendible_hash)
      (directory (ExtendibleHash Map.empty 2 1 :: (int, int) extendible_hash) ! 0)
   \<noteq> 2 ^ (global_depth (ExtendibleHash Map.empty 2 1 :: (int, int) extendible_hash)
          - local_depth (bucket_at (ExtendibleHash Map.empty 2 1 :: (int, int) extendible_hash) 0))"
  by (simp add: slot_count_def bucket_at_def ExtendibleHash_def save_metadata_def Bucket_def
      load_filename_def str_nat_digit digit_char_def)

end
